theory Spec2Isabelle
  imports Complex_Main
begin

section \<open>The cube grid: interaction handlers and animation loop\<close>

text \<open>
  A shallow embedding of the effect body of \<open>CubeGrid\<close> in \<open>src/CubeGridWithZoom.tsx\<close>:
  the closure variables of the effect become the fields of one state record, every handler
  and the frame callback \<open>animate\<close> become functions from state to state.

  JavaScript numbers are modelled as real numbers (no rounding, no NaN, no infinities).
  Properties of the program that depend on the rounding of doubles are therefore not stated
  here: how far the length of the group's quaternion drifts from 1 under repeated products
  in \<open>drag\<close>, and how close the zoom smoothing brings the current distance to its target.
  The scene graph is reduced to what the handlers read and write: the group's
  \<open>rotation\<close> and \<open>quaternion\<close>, the \<open>rotation.y\<close> of each row, and the camera position.
  Hover detection (the raycaster) only drives the cursor style and is left out, as are
  rendering and the resize handler.
\<close>

subsection \<open>Vectors, Euler angles and quaternions of the 3D library\<close>

text \<open>
  The component imports these from the 3D library (three.js); they are not code of the
  repository. They are written out from the library's formulas, for the Euler order
  \<open>'XYZ'\<close> only.
\<close>

record vec3 =
  vec_x :: real
  vec_y :: real
  vec_z :: real

text \<open>Euler angles; the order is always \<open>'XYZ'\<close> (the library's default, and the one
  \<open>drag\<close> names).\<close>

record euler =
  euler_x :: real
  euler_y :: real
  euler_z :: real

record quaternion =
  quat_x :: real
  quat_y :: real
  quat_z :: real
  quat_w :: real

text \<open>\<open>Quaternion.setFromEuler\<close> for the order \<open>'XYZ'\<close>.\<close>

definition setFromEuler :: "euler \<Rightarrow> quaternion" where
  "setFromEuler e =
     (let c1 = cos (euler_x e / 2); c2 = cos (euler_y e / 2); c3 = cos (euler_z e / 2);
          s1 = sin (euler_x e / 2); s2 = sin (euler_y e / 2); s3 = sin (euler_z e / 2)
      in \<lparr> quat_x = s1 * c2 * c3 + c1 * s2 * s3,
           quat_y = c1 * s2 * c3 - s1 * c2 * s3,
           quat_z = c1 * c2 * s3 + s1 * s2 * c3,
           quat_w = c1 * c2 * c3 - s1 * s2 * s3 \<rparr>)"

text \<open>\<open>Quaternion.multiplyQuaternions(a, b)\<close>: the Hamilton product \<open>a * b\<close>.\<close>

definition multiplyQuaternions :: "quaternion \<Rightarrow> quaternion \<Rightarrow> quaternion" where
  "multiplyQuaternions a b =
     \<lparr> quat_x = quat_x a * quat_w b + quat_w a * quat_x b + quat_y a * quat_z b - quat_z a * quat_y b,
       quat_y = quat_y a * quat_w b + quat_w a * quat_y b + quat_z a * quat_x b - quat_x a * quat_z b,
       quat_z = quat_z a * quat_w b + quat_w a * quat_z b + quat_x a * quat_y b - quat_y a * quat_x b,
       quat_w = quat_w a * quat_w b - quat_x a * quat_x b - quat_y a * quat_y b - quat_z a * quat_z b \<rparr>"

text \<open>\<open>Math.atan2(y, x)\<close> on the reals. Signed zeros do not exist here: for \<open>x < 0\<close> the
  library gives \<open>pi\<close> at \<open>y = +0\<close> and \<open>- pi\<close> at \<open>y = -0\<close>, and this definition gives
  \<open>pi\<close> at \<open>y = 0\<close>. Only \<open>groupRotation\<close> after a drag depends on it, and no theorem below
  reads that value.\<close>

definition atan2 :: "real \<Rightarrow> real \<Rightarrow> real" where
  "atan2 y x =
     (if 0 < x then arctan (y / x)
      else if x < 0 then (if 0 \<le> y then arctan (y / x) + pi else arctan (y / x) - pi)
      else if 0 < y then pi / 2
      else if y < 0 then - (pi / 2)
      else 0)"

text \<open>\<open>MathUtils.clamp(value, min, max)\<close>.\<close>

definition clamp :: "real \<Rightarrow> real \<Rightarrow> real \<Rightarrow> real" where
  "clamp v lo hi = max lo (min hi v)"

text \<open>\<open>Euler.setFromQuaternion\<close> for the order \<open>'XYZ'\<close>: the rotation matrix of the
  quaternion, then \<open>Euler.setFromRotationMatrix\<close>. An \<open>Object3D\<close> runs it whenever its
  quaternion is written, to keep \<open>rotation\<close> in step.\<close>

definition setFromQuaternion :: "quaternion \<Rightarrow> euler" where
  "setFromQuaternion q =
     (let x = quat_x q; y = quat_y q; z = quat_z q; w = quat_w q;
          x2 = x + x; y2 = y + y; z2 = z + z;
          xx = x * x2; xy = x * y2; xz = x * z2;
          yy = y * y2; yz = y * z2; zz = z * z2;
          wx = w * x2; wy = w * y2; wz = w * z2;
          m11 = 1 - (yy + zz); m12 = xy - wz; m13 = xz + wy;
          m22 = 1 - (xx + zz); m23 = yz - wx;
          m32 = yz + wx; m33 = 1 - (xx + yy)
      in if \<bar>m13\<bar> < 0.9999999
         then \<lparr> euler_x = atan2 (- m23) m33, euler_y = arcsin (clamp m13 (-1) 1),
                euler_z = atan2 (- m12) m11 \<rparr>
         else \<lparr> euler_x = atan2 m32 m22, euler_y = arcsin (clamp m13 (-1) 1),
                euler_z = 0 \<rparr>)"

text \<open>\<open>Vector3.length\<close>, \<open>Vector3.normalize\<close> (a zero vector is divided by 1) and
  \<open>Vector3.multiplyScalar\<close>.\<close>

definition vec_length :: "vec3 \<Rightarrow> real" where
  "vec_length v = sqrt (vec_x v * vec_x v + vec_y v * vec_y v + vec_z v * vec_z v)"

definition multiplyScalar :: "real \<Rightarrow> vec3 \<Rightarrow> vec3" where
  "multiplyScalar k v = \<lparr> vec_x = vec_x v * k, vec_y = vec_y v * k, vec_z = vec_z v * k \<rparr>"

definition normalize :: "vec3 \<Rightarrow> vec3" where
  "normalize v = multiplyScalar (1 / (if vec_length v = 0 then 1 else vec_length v)) v"

text \<open>\<open>Math.hypot\<close> of two arguments.\<close>

definition hypot :: "real \<Rightarrow> real \<Rightarrow> real" where
  "hypot a b = sqrt (a * a + b * b)"

subsection \<open>Constants and state of the effect\<close>

definition dragRotationSpeed :: real where "dragRotationSpeed = 0.01"
definition wholeCubeRotationSpeed :: real where "wholeCubeRotationSpeed = 0.005"
definition rotationDuration :: real where "rotationDuration = 1000"
definition pauseDuration :: real where "pauseDuration = 3000"
definition zoomSpeed :: real where "zoomSpeed = 0.1"
definition minZoom :: real where "minZoom = 3"
definition maxZoom :: real where "maxZoom = 20"

record point =
  pos_x :: real
  pos_y :: real

text \<open>One entry of \<open>event.touches\<close>.\<close>

record touch =
  clientX :: real
  clientY :: real
  pageX :: real
  pageY :: real

text \<open>The mutable variables of the effect. \<open>rows\<close> holds \<open>rotation.y\<close> of every group in
  \<open>rowsRef.current\<close>, in order.\<close>

record state =
  isDragging :: bool
  previousMousePosition :: point
  isRotating :: bool
  currentRowIndex :: nat
  rotationStartTime :: real
  targetZoom :: real
  currentZoom :: real
  previousTouchDistance :: real
  rows :: "real list"
  groupRotation :: euler
  groupQuaternion :: quaternion
  cameraPosition :: vec3

text \<open>The state when the effect has run its setup, before the first call \<open>animate(0)\<close>:
  three rows, none rotated; the group unrotated; the camera at \<open>(6, 6, 6)\<close>.\<close>

definition init :: state where
  "init =
     \<lparr> isDragging = False,
       previousMousePosition = \<lparr> pos_x = 0, pos_y = 0 \<rparr>,
       isRotating = False,
       currentRowIndex = 0,
       rotationStartTime = 0,
       targetZoom = vec_length \<lparr> vec_x = 6, vec_y = 6, vec_z = 6 \<rparr>,
       currentZoom = vec_length \<lparr> vec_x = 6, vec_y = 6, vec_z = 6 \<rparr>,
       previousTouchDistance = 0,
       rows = [0, 0, 0],
       groupRotation = \<lparr> euler_x = 0, euler_y = 0, euler_z = 0 \<rparr>,
       groupQuaternion = \<lparr> quat_x = 0, quat_y = 0, quat_z = 0, quat_w = 1 \<rparr>,
       cameraPosition = \<lparr> vec_x = 6, vec_y = 6, vec_z = 6 \<rparr> \<rparr>"

subsection \<open>Interaction handlers\<close>

definition startDragging :: "real \<Rightarrow> real \<Rightarrow> state \<Rightarrow> state" where
  "startDragging cx cy s =
     s\<lparr> isDragging := True, previousMousePosition := \<lparr> pos_x = cx, pos_y = cy \<rparr> \<rparr>"

definition stopDragging :: "state \<Rightarrow> state" where
  "stopDragging s = s\<lparr> isDragging := False \<rparr>"

text \<open>The Euler angles \<open>drag\<close> builds from the pointer movement.\<close>

definition deltaRotationEuler :: "real \<Rightarrow> real \<Rightarrow> state \<Rightarrow> euler" where
  "deltaRotationEuler cx cy s =
     (let deltaMove_x = cx - pos_x (previousMousePosition s);
          deltaMove_y = cy - pos_y (previousMousePosition s)
      in \<lparr> euler_x = deltaMove_y * dragRotationSpeed,
           euler_y = deltaMove_x * dragRotationSpeed,
           euler_z = 0 \<rparr>)"

text \<open>\<open>multiplyQuaternions\<close> reads both arguments before it writes, so passing the group's
  own quaternion as the second one is safe; the write brings \<open>rotation\<close> in step.\<close>

definition drag :: "real \<Rightarrow> real \<Rightarrow> state \<Rightarrow> state" where
  "drag cx cy s =
     (if isDragging s then
        (let deltaRotationQuaternion = setFromEuler (deltaRotationEuler cx cy s);
             q = multiplyQuaternions deltaRotationQuaternion (groupQuaternion s)
         in s\<lparr> groupQuaternion := q,
               groupRotation := setFromQuaternion q,
               previousMousePosition := \<lparr> pos_x = cx, pos_y = cy \<rparr> \<rparr>)
      else s)"

definition zoom :: "real \<Rightarrow> state \<Rightarrow> state" where
  "zoom delta s =
     (let t = targetZoom s + delta * zoomSpeed
      in s\<lparr> targetZoom := max minZoom (min maxZoom t) \<rparr>)"

text \<open>Handlers that may call \<open>event.preventDefault()\<close> return whether they did, with the
  new state.\<close>

definition onWheel :: "real \<Rightarrow> state \<Rightarrow> bool \<times> state" where
  "onWheel deltaY s = (True, zoom deltaY s)"

text \<open>The distance of two touch points, as both touch handlers compute it.\<close>

definition touchDistance :: "touch \<Rightarrow> touch \<Rightarrow> real" where
  "touchDistance t0 t1 = hypot (pageX t0 - pageX t1) (pageY t0 - pageY t1)"

definition onTouchStart :: "touch list \<Rightarrow> state \<Rightarrow> bool \<times> state" where
  "onTouchStart touches s =
     (case touches of
        [t0] \<Rightarrow> (True, startDragging (clientX t0) (clientY t0) s)
      | [t0, t1] \<Rightarrow> (False, s\<lparr> previousTouchDistance := touchDistance t0 t1 \<rparr>)
      | _ \<Rightarrow> (False, s))"

definition onTouchMove :: "touch list \<Rightarrow> state \<Rightarrow> bool \<times> state" where
  "onTouchMove touches s =
     (case touches of
        [t0] \<Rightarrow> (True, drag (clientX t0) (clientY t0) s)
      | [t0, t1] \<Rightarrow>
          (let d = touchDistance t0 t1
           in (False, (zoom (previousTouchDistance s - d) s)\<lparr> previousTouchDistance := d \<rparr>))
      | _ \<Rightarrow> (False, s))"

subsection \<open>The animation loop\<close>

text \<open>Writing \<open>rowsRef.current[i].rotation.y\<close> throws a \<open>TypeError\<close> when there is no
  row \<open>i\<close>.\<close>

datatype error = TypeError

text \<open>The whole-cube auto-rotation (lines 249-252). Each assignment to a component of
  \<open>group.rotation\<close> recomputes the group's quaternion from the Euler angles.\<close>

definition autoRotation :: "state \<Rightarrow> state" where
  "autoRotation s =
     (if \<not> isDragging s then
        (let r1 = (groupRotation s)\<lparr> euler_x := euler_x (groupRotation s) + wholeCubeRotationSpeed \<rparr>;
             s1 = s\<lparr> groupRotation := r1, groupQuaternion := setFromEuler r1 \<rparr>;
             r2 = r1\<lparr> euler_y := euler_y r1 + wholeCubeRotationSpeed \<rparr>
         in s1\<lparr> groupRotation := r2, groupQuaternion := setFromEuler r2 \<rparr>)
      else s)"

text \<open>The timed row rotation (lines 254-271), in its two steps.\<close>

definition startRotation :: "real \<Rightarrow> state \<Rightarrow> state" where
  "startRotation time s =
     (if \<not> isRotating s \<and> time - rotationStartTime s > pauseDuration
      then s\<lparr> isRotating := True, rotationStartTime := time \<rparr>
      else s)"

definition setRowRotationY :: "nat \<Rightarrow> real \<Rightarrow> state \<Rightarrow> error + state" where
  "setRowRotationY i angle s =
     (if i < length (rows s) then Inr (s\<lparr> rows := (rows s)[i := angle] \<rparr>) else Inl TypeError)"

definition rotateRow :: "real \<Rightarrow> state \<Rightarrow> error + state" where
  "rotateRow time s =
     (if isRotating s then
        (let progress = (time - rotationStartTime s) / rotationDuration
         in if progress < 1 then setRowRotationY (currentRowIndex s) (progress * pi / 2) s
            else
              (case setRowRotationY (currentRowIndex s) (pi / 2) s of
                 Inl e \<Rightarrow> Inl e
               | Inr s' \<Rightarrow>
                   Inr (s'\<lparr> isRotating := False,
                            currentRowIndex := (currentRowIndex s' + 1) mod length (rows s'),
                            rotationStartTime := time \<rparr>)))
      else Inr s)"

text \<open>The smooth zoom (lines 273-276); \<open>scene.position\<close> is the origin.\<close>

definition smoothZoom :: "state \<Rightarrow> state" where
  "smoothZoom s =
     (let z = currentZoom s + (targetZoom s - currentZoom s) * 0.1;
          direction = normalize (cameraPosition s)
      in s\<lparr> currentZoom := z, cameraPosition := multiplyScalar z direction \<rparr>)"

text \<open>One frame. The guard on the four refs is always true here: the effect sets them
  before the first frame and nothing resets them.\<close>

definition animate :: "real \<Rightarrow> state \<Rightarrow> error + state" where
  "animate time s =
     (case rotateRow time (startRotation time (autoRotation s)) of
        Inl e \<Rightarrow> Inl e
      | Inr s' \<Rightarrow> Inr (smoothZoom s'))"

subsection \<open>Runs of events\<close>

datatype event =
    Frame real
  | MouseDown real real
  | MouseMove real real
  | MouseUp
  | Wheel real
  | TouchStart "touch list"
  | TouchMove "touch list"
  | TouchEnd

fun handle :: "event \<Rightarrow> state \<Rightarrow> error + state" where
  "handle (Frame time) s = animate time s"
| "handle (MouseDown cx cy) s = Inr (startDragging cx cy s)"
| "handle (MouseMove cx cy) s = Inr (drag cx cy s)"
| "handle MouseUp s = Inr (stopDragging s)"
| "handle (Wheel deltaY) s = Inr (snd (onWheel deltaY s))"
| "handle (TouchStart touches) s = Inr (snd (onTouchStart touches s))"
| "handle (TouchMove touches) s = Inr (snd (onTouchMove touches s))"
| "handle TouchEnd s = Inr (stopDragging s)"

fun run :: "event list \<Rightarrow> state \<Rightarrow> error + state" where
  "run [] s = Inr s"
| "run (e # es) s = (case handle e s of Inl err \<Rightarrow> Inl err | Inr s' \<Rightarrow> run es s')"

subsection \<open>Observations on runs\<close>

text \<open>A run of frames only, at the given times.\<close>

definition frames :: "real list \<Rightarrow> event list" where
  "frames ts = map Frame ts"

text \<open>Frames every millisecond, at \<open>a, a + 1, ..., b - 1\<close> ms.\<close>

definition msTicks :: "nat \<Rightarrow> nat \<Rightarrow> real list" where
  "msTicks a b = map real [a..<b]"

text \<open>The times of the frames of a run, in order.\<close>

fun frameTimes :: "event list \<Rightarrow> real list" where
  "frameTimes [] = []"
| "frameTimes (Frame time # es) = time # frameTimes es"
| "frameTimes (e # es) = frameTimes es"

text \<open>The row that the next frame writes exists.\<close>

definition rows_ok :: "state \<Rightarrow> bool" where
  "rows_ok s = (currentRowIndex s < length (rows s))"

text \<open>The four variables of the timed row rotation, and one frame's effect on them
  (lines 254-271 of the source, read on these variables alone).\<close>

definition schedulerState :: "state \<Rightarrow> bool \<times> nat \<times> real \<times> real list" where
  "schedulerState s = (isRotating s, currentRowIndex s, rotationStartTime s, rows s)"

fun schedulerStep :: "real \<Rightarrow> bool \<times> nat \<times> real \<times> real list \<Rightarrow> bool \<times> nat \<times> real \<times> real list" where
  "schedulerStep time (rotating, i, start, rs) =
     (let starts = (\<not> rotating \<and> time - start > pauseDuration);
          rotating1 = (rotating \<or> starts);
          start1 = (if starts then time else start);
          progress = (time - start1) / rotationDuration
      in if rotating1 then
           (if progress < 1 then (True, i, start1, rs[i := progress * pi / 2])
            else (False, (i + 1) mod length rs, time, rs[i := pi / 2]))
         else (False, i, start1, rs))"

text \<open>The frame at \<open>time\<close> finishes the rotation of the current row: it takes the branch
  that snaps the angle (lines 265-270). The auto-rotation that runs first does not touch the
  variables this reads.\<close>

definition completes :: "real \<Rightarrow> state \<Rightarrow> bool" where
  "completes time s =
     (let s1 = startRotation time s
      in isRotating s1 \<and> \<not> (time - rotationStartTime s1) / rotationDuration < 1)"

text \<open>The rotations a run of frames finishes: the frame's time and the row, in order.\<close>

fun completions :: "real list \<Rightarrow> state \<Rightarrow> (real \<times> nat) list" where
  "completions [] s = []"
| "completions (time # ts) s =
     (case animate time s of
        Inl e \<Rightarrow> []
      | Inr s' \<Rightarrow> (if completes time s then [(time, currentRowIndex s)] else []) @ completions ts s')"

text \<open>The same two observations, read on the scheduler variables alone.\<close>

fun schedulerCompletes :: "real \<Rightarrow> bool \<times> nat \<times> real \<times> real list \<Rightarrow> bool" where
  "schedulerCompletes time (rotating, i, start, rs) =
     (let starts = (\<not> rotating \<and> time - start > pauseDuration);
          start1 = (if starts then time else start)
      in (rotating \<or> starts) \<and> \<not> (time - start1) / rotationDuration < 1)"

fun schedulerCompletions :: "real list \<Rightarrow> bool \<times> nat \<times> real \<times> real list \<Rightarrow> (real \<times> nat) list" where
  "schedulerCompletions [] c = []"
| "schedulerCompletions (time # ts) c =
     (if schedulerCompletes time c then [(time, fst (snd c))] else [])
       @ schedulerCompletions ts (schedulerStep time c)"

text \<open>The scheduler variables, and the row angles, after a run.\<close>

definition schedulerAfter :: "event list \<Rightarrow> state \<Rightarrow> error + bool \<times> nat \<times> real \<times> real list" where
  "schedulerAfter es s = map_sum id schedulerState (run es s)"

definition rowsAfter :: "event list \<Rightarrow> state \<Rightarrow> real list" where
  "rowsAfter es s = (case run es s of Inl e \<Rightarrow> [] | Inr s' \<Rightarrow> rows s')"

section \<open>The zoom target\<close>

text \<open>
  Claim C5. For every delta and every state, \<open>zoom\<close> sets the target distance to
  \<open>targetZoom + delta * zoomSpeed\<close> clamped to \<open>[minZoom, maxZoom]\<close>, so the target lies
  in that interval after every call; the wheel handler passes its \<open>deltaY\<close> on unchanged, and
  a wheel delta of 100 at a target distance of 10 gives 20.
\<close>

theorem zoom_clamps_target:
  "targetZoom (zoom delta s) = clamp (targetZoom s + delta * zoomSpeed) minZoom maxZoom
   \<and> minZoom \<le> targetZoom (zoom delta s) \<and> targetZoom (zoom delta s) \<le> maxZoom
   \<and> snd (onWheel delta s) = zoom delta s
   \<and> zoomSpeed = 0.1
   \<and> targetZoom (snd (onWheel 100 (s\<lparr> targetZoom := 10 \<rparr>))) = 20"
  by (simp add: zoom_def onWheel_def clamp_def minZoom_def maxZoom_def zoomSpeed_def Let_def)

section \<open>Timed row rotation\<close>

subsection \<open>A frame, on the scheduler variables\<close>

lemma rows_ok_init: "rows_ok init" by (simp add: rows_ok_def init_def)

lemma next_index_less: "i < n \<Longrightarrow> Suc i mod n < (n::nat)"
  by (cases "n = 0") simp_all

lemma animate_scheduler:
  assumes "rows_ok s"
  shows "\<exists>s'. animate time s = Inr s' \<and> rows_ok s' \<and> schedulerState s' = schedulerStep time (schedulerState s)
     \<and> targetZoom s' = targetZoom s
     \<and> currentZoom s' = currentZoom s + (targetZoom s - currentZoom s) * 0.1"
  using assms
  by (auto simp add: animate_def rotateRow_def startRotation_def autoRotation_def smoothZoom_def
      setRowRotationY_def rows_ok_def schedulerState_def Let_def next_index_less)

lemma run_append:
  "run (xs @ ys) s = (case run xs s of Inl e \<Rightarrow> Inl e | Inr s' \<Rightarrow> run ys s')"
  by (induction xs arbitrary: s) (auto split: sum.splits)

lemma run_frames_scheduler:
  "rows_ok s \<Longrightarrow> \<exists>s'. run (frames ts) s = Inr s' \<and> rows_ok s' \<and>
     schedulerState s' = fold schedulerStep ts (schedulerState s)"
proof (induction ts arbitrary: s)
  case Nil
  then show ?case by (simp add: frames_def)
next
  case (Cons t ts)
  from animate_scheduler[OF Cons.prems, of t] obtain s1 where
    s1: "animate t s = Inr s1" "rows_ok s1" "schedulerState s1 = schedulerStep t (schedulerState s)"
    by blast
  from Cons.IH[OF s1(2)] obtain s' where
    "run (frames ts) s1 = Inr s'" "rows_ok s'" "schedulerState s' = fold schedulerStep ts (schedulerState s1)"
    by blast
  with s1 show ?case by (simp add: frames_def)
qed

lemma schedulerAfter_frames:
  "rows_ok s \<Longrightarrow> schedulerAfter (frames ts) s = Inr (fold schedulerStep ts (schedulerState s))"
  using run_frames_scheduler[of s ts] by (auto simp add: schedulerAfter_def)

lemma completes_eq_scheduler: "completes time s = schedulerCompletes time (schedulerState s)"
  by (auto simp add: completes_def startRotation_def schedulerState_def Let_def)

lemma completions_scheduler:
  "rows_ok s \<Longrightarrow> completions ts s = schedulerCompletions ts (schedulerState s)"
proof (induction ts arbitrary: s)
  case Nil
  then show ?case by simp
next
  case (Cons t ts)
  from animate_scheduler[OF Cons.prems, of t] obtain s1 where
    s1: "animate t s = Inr s1" "rows_ok s1" "schedulerState s1 = schedulerStep t (schedulerState s)"
    by blast
  have "currentRowIndex s = fst (snd (schedulerState s))" by (simp add: schedulerState_def)
  with Cons.IH[OF s1(2)] s1 show ?case
    by (simp add: completes_eq_scheduler)
qed

lemma rowsAfter_frames:
  "rows_ok s \<Longrightarrow> rowsAfter (frames ts) s = snd (snd (snd (fold schedulerStep ts (schedulerState s))))"
proof -
  assume "rows_ok s"
  from run_frames_scheduler[OF this, of ts] obtain s' where
    s': "run (frames ts) s = Inr s'" "schedulerState s' = fold schedulerStep ts (schedulerState s)"
    by blast
  have "rows s' = snd (snd (snd (schedulerState s')))" by (simp add: schedulerState_def)
  with s' show ?thesis by (simp add: rowsAfter_def)
qed

lemma scheduler_init: "schedulerState init = (False, 0, 0, [0, 0, 0])"
  by (simp add: schedulerState_def init_def)

subsection \<open>Phases of a run of frames\<close>

lemma frames_Cons: "frames (t # ts) = Frame t # frames ts" by (simp add: frames_def)
lemma frames_Nil: "frames [] = []" by (simp add: frames_def)
lemma frames_append: "frames (xs @ ys) = frames xs @ frames ys" by (simp add: frames_def)

lemma completes_scheduler:
  "schedulerState s = (r, i, st, rs) \<Longrightarrow>
   completes time s = ((r \<or> time - st > pauseDuration) \<and> \<not> (time - (if \<not> r \<and> time - st > pauseDuration then time else st)) / rotationDuration < 1)"
  by (auto simp add: completes_def startRotation_def schedulerState_def Let_def)

lemma idle_phase:
  assumes "rows_ok s" "schedulerState s = (False, i, st, rs)" "\<forall>t\<in>set ts. t - st \<le> pauseDuration"
  shows "\<exists>s'. run (frames ts) s = Inr s' \<and> rows_ok s' \<and> schedulerState s' = (False, i, st, rs)
           \<and> completions ts s = []"
  using assms
proof (induction ts arbitrary: s)
  case Nil
  then show ?case by (simp add: frames_Nil)
next
  case (Cons t ts)
  from animate_scheduler[OF Cons.prems(1), of t] obtain s1 where
    s1: "animate t s = Inr s1" "rows_ok s1" "schedulerState s1 = schedulerStep t (schedulerState s)"
    by blast
  have t: "\<not> t - st > pauseDuration" using Cons.prems(3) by simp
  have st1: "schedulerState s1 = (False, i, st, rs)"
    using s1(3) t by (simp add: Cons.prems(2) Let_def)
  have nc: "\<not> completes t s"
    using t by (simp add: completes_scheduler[OF Cons.prems(2)])
  from Cons.IH[OF s1(2) st1] Cons.prems(3) obtain s' where
    "run (frames ts) s1 = Inr s'" "rows_ok s'" "schedulerState s' = (False, i, st, rs)" "completions ts s1 = []"
    by auto
  with s1 nc show ?case by (simp add: frames_Cons)
qed

lemma rotating_phase:
  assumes "rows_ok s" "schedulerState s = (True, i, st, rs)"
    "\<forall>t\<in>set ts. (t - st) / rotationDuration < 1"
  shows "\<exists>s'. run (frames ts) s = Inr s' \<and> rows_ok s' \<and>
           schedulerState s' = (True, i, st, if ts = [] then rs else rs[i := (last ts - st) / rotationDuration * pi / 2])
           \<and> completions ts s = []"
  using assms
proof (induction ts arbitrary: s rs)
  case Nil
  then show ?case by (simp add: frames_Nil)
next
  case (Cons t ts)
  from animate_scheduler[OF Cons.prems(1), of t] obtain s1 where
    s1: "animate t s = Inr s1" "rows_ok s1" "schedulerState s1 = schedulerStep t (schedulerState s)"
    by blast
  have t: "(t - st) / rotationDuration < 1" using Cons.prems(3) by simp
  have st1: "schedulerState s1 = (True, i, st, rs[i := (t - st) / rotationDuration * pi / 2])"
    using s1(3) t by (simp add: Cons.prems(2) Let_def)
  have nc: "\<not> completes t s"
    using t by (simp add: completes_scheduler[OF Cons.prems(2)])
  from Cons.IH[OF s1(2) st1] Cons.prems(3) obtain s' where
    "run (frames ts) s1 = Inr s'" "rows_ok s'"
    "schedulerState s' = (True, i, st, if ts = [] then rs[i := (t - st) / rotationDuration * pi / 2]
        else (rs[i := (t - st) / rotationDuration * pi / 2])[i := (last ts - st) / rotationDuration * pi / 2])"
    "completions ts s1 = []"
    by auto
  with s1 nc show ?case by (simp add: frames_Cons)
qed

lemma start_frame:
  assumes "rows_ok s" "schedulerState s = (False, i, st, rs)" "t - st > pauseDuration"
  shows "\<exists>s'. run (frames [t]) s = Inr s' \<and> rows_ok s' \<and>
           schedulerState s' = (True, i, t, rs[i := 0]) \<and> completions [t] s = []"
proof -
  from animate_scheduler[OF assms(1), of t] obtain s1 where
    s1: "animate t s = Inr s1" "rows_ok s1" "schedulerState s1 = schedulerStep t (schedulerState s)"
    by blast
  have "schedulerState s1 = (True, i, t, rs[i := 0])"
    using s1(3) assms(3) by (simp add: assms(2) Let_def rotationDuration_def)
  moreover have "\<not> completes t s"
    using assms(3) by (simp add: completes_scheduler[OF assms(2)] rotationDuration_def)
  ultimately show ?thesis using s1 by (simp add: frames_def)
qed

lemma completing_frame:
  assumes "rows_ok s" "schedulerState s = (True, i, st, rs)" "\<not> (t - st) / rotationDuration < 1"
  shows "\<exists>s'. run (frames [t]) s = Inr s' \<and> rows_ok s' \<and>
           schedulerState s' = (False, (i + 1) mod length rs, t, rs[i := pi / 2]) \<and>
           completions [t] s = [(t, i)]"
proof -
  from animate_scheduler[OF assms(1), of t] obtain s1 where
    s1: "animate t s = Inr s1" "rows_ok s1" "schedulerState s1 = schedulerStep t (schedulerState s)"
    by blast
  have "schedulerState s1 = (False, (i + 1) mod length rs, t, rs[i := pi / 2])"
    using s1(3) assms(3) by (simp add: assms(2) Let_def)
  moreover have "completes t s"
    using assms(3) by (simp add: completes_scheduler[OF assms(2)])
  moreover have "currentRowIndex s = i" using assms(2) by (simp add: schedulerState_def)
  ultimately show ?thesis using s1 by (simp add: frames_def)
qed

lemma completions_append:
  "completions (xs @ ys) s =
     (case run (frames xs) s of Inl e \<Rightarrow> completions xs s | Inr s' \<Rightarrow> completions xs s @ completions ys s')"
  by (induction xs arbitrary: s) (auto simp add: frames_def split: sum.splits)

lemma phases_append:
  assumes "run (frames xs) s = Inr s1" "run (frames ys) s1 = Inr s2"
  shows "run (frames (xs @ ys)) s = Inr s2 \<and> completions (xs @ ys) s = completions xs s @ completions ys s1"
  using assms by (simp add: frames_append run_append completions_append)

subsection \<open>Frames every millisecond\<close>

lemma msTicks_split: "a \<le> b \<Longrightarrow> b \<le> c \<Longrightarrow> msTicks a c = msTicks a b @ msTicks b c"
  using upt_add_eq_append[of a b "c - b"] by (simp add: msTicks_def)

lemma msTicks_single: "b = Suc a \<Longrightarrow> msTicks a b = [real a]"
  by (simp add: msTicks_def)

lemma set_msTicks: "set (msTicks a b) = real ` {a..<b}"
  by (simp add: msTicks_def)

lemma last_msTicks: "a < b \<Longrightarrow> last (msTicks a b) = real (b - 1)"
  by (simp add: msTicks_def last_map)

lemma msTicks_empty_iff: "msTicks a b = [] \<longleftrightarrow> b \<le> a"
  by (auto simp add: msTicks_def)

lemma ms_cycle:
  assumes ok: "rows_ok s" and st: "schedulerState s = (False, i, real n, rs)"
  shows "\<exists>s'. run (frames (msTicks (n + 1) (n + 4002))) s = Inr s' \<and> rows_ok s' \<and>
           schedulerState s' = (False, (i + 1) mod length rs, real (n + 4001), rs[i := pi / 2]) \<and>
           completions (msTicks (n + 1) (n + 4002)) s = [(real (n + 4001), i)]"
proof -
  have "\<forall>t\<in>set (msTicks (n + 1) (n + 3001)). t - real n \<le> pauseDuration"
    by (auto simp add: set_msTicks pauseDuration_def)
  from idle_phase[OF ok st this] obtain s1 where
    s1: "run (frames (msTicks (n + 1) (n + 3001))) s = Inr s1" "rows_ok s1"
      "schedulerState s1 = (False, i, real n, rs)"
      "completions (msTicks (n + 1) (n + 3001)) s = []"
    by blast
  have "real (n + 3001) - real n > pauseDuration"
    by (simp add: pauseDuration_def)
  from start_frame[OF s1(2) s1(3) this] obtain s2 where
    s2: "run (frames [real (n + 3001)]) s1 = Inr s2" "rows_ok s2"
      "schedulerState s2 = (True, i, real (n + 3001), rs[i := 0])"
      "completions [real (n + 3001)] s1 = []"
    by blast
  have "\<forall>t\<in>set (msTicks (n + 3002) (n + 4001)). (t - real (n + 3001)) / rotationDuration < 1"
    by (auto simp add: set_msTicks rotationDuration_def)
  from rotating_phase[OF s2(2) s2(3) this] obtain s3 where
    s3: "run (frames (msTicks (n + 3002) (n + 4001))) s2 = Inr s3" "rows_ok s3"
      "schedulerState s3 = (True, i, real (n + 3001),
         rs[i := (real (n + 4000) - real (n + 3001)) / rotationDuration * pi / 2])"
      "completions (msTicks (n + 3002) (n + 4001)) s2 = []"
    by (auto simp add: msTicks_empty_iff last_msTicks)
  have "\<not> (real (n + 4001) - real (n + 3001)) / rotationDuration < 1"
    by (simp add: rotationDuration_def)
  from completing_frame[OF s3(2) s3(3) this] obtain s4 where
    s4: "run (frames [real (n + 4001)]) s3 = Inr s4" "rows_ok s4"
      "schedulerState s4 = (False, (i + 1) mod length rs, real (n + 4001), rs[i := pi / 2])"
      "completions [real (n + 4001)] s3 = [(real (n + 4001), i)]"
    by auto
  have split: "msTicks (n + 1) (n + 4002) =
      ((msTicks (n + 1) (n + 3001) @ [real (n + 3001)]) @ msTicks (n + 3002) (n + 4001)) @ [real (n + 4001)]"
  proof -
    have a: "msTicks (n + 1) (n + 4002) = msTicks (n + 1) (n + 3001) @ msTicks (n + 3001) (n + 4002)"
      by (rule msTicks_split) simp_all
    have b: "msTicks (n + 3001) (n + 4002) = msTicks (n + 3001) (n + 3002) @ msTicks (n + 3002) (n + 4002)"
      by (rule msTicks_split) simp_all
    have c: "msTicks (n + 3002) (n + 4002) = msTicks (n + 3002) (n + 4001) @ msTicks (n + 4001) (n + 4002)"
      by (rule msTicks_split) simp_all
    have d: "msTicks (n + 3001) (n + 3002) = [real (n + 3001)]"
      by (rule msTicks_single) simp
    have e: "msTicks (n + 4001) (n + 4002) = [real (n + 4001)]"
      by (rule msTicks_single) simp
    show ?thesis unfolding a b c d e by simp
  qed
  note a = phases_append[OF s1(1) s2(1)]
  note b = phases_append[OF conjunct1[OF a] s3(1)]
  note c = phases_append[OF conjunct1[OF b] s4(1)]
  show ?thesis
    unfolding split using a b c s1 s2 s3 s4 by simp
qed

lemma first_frame:
  "\<exists>s'. run (frames (msTicks 0 1)) init = Inr s' \<and> rows_ok s' \<and>
     schedulerState s' = (False, 0, 0, [0, 0, 0]) \<and> completions (msTicks 0 1) init = []"
proof -
  have "schedulerState init = (False, 0, 0, [0, 0, 0])" by (simp add: schedulerState_def init_def)
  from idle_phase[OF rows_ok_init this, of "msTicks 0 1"] show ?thesis
    by (simp add: set_msTicks pauseDuration_def)
qed


lemma one_cycle:
  "\<exists>s'. run (frames (msTicks 0 4002)) init = Inr s' \<and> rows_ok s' \<and>
     schedulerState s' = (False, 1, 4001, [pi / 2, 0, 0]) \<and>
     completions (msTicks 0 4002) init = [(4001, 0)]"
proof -
  from first_frame obtain s0 where
    s0: "run (frames (msTicks 0 1)) init = Inr s0" "rows_ok s0"
      "schedulerState s0 = (False, 0, 0, [0, 0, 0])" "completions (msTicks 0 1) init = []"
    by blast
  from ms_cycle[OF s0(2), of 0 0 "[0, 0, 0]"] s0(3) obtain s1 where
    s1: "run (frames (msTicks 1 4002)) s0 = Inr s1" "rows_ok s1"
      "schedulerState s1 = (False, 1, 4001, [pi / 2, 0, 0])"
      "completions (msTicks 1 4002) s0 = [(4001, 0)]"
    by auto
  have "msTicks 0 4002 = msTicks 0 1 @ msTicks 1 4002"
    by (rule msTicks_split) simp_all
  with phases_append[OF s0(1) s1(1)] s0 s1 show ?thesis by simp
qed

lemma two_cycles:
  "\<exists>s'. run (frames (msTicks 0 8003)) init = Inr s' \<and> rows_ok s' \<and>
     schedulerState s' = (False, 2, 8002, [pi / 2, pi / 2, 0]) \<and>
     completions (msTicks 0 8003) init = [(4001, 0), (8002, 1)]"
proof -
  from one_cycle obtain s1 where
    s1: "run (frames (msTicks 0 4002)) init = Inr s1" "rows_ok s1"
      "schedulerState s1 = (False, 1, 4001, [pi / 2, 0, 0])"
      "completions (msTicks 0 4002) init = [(4001, 0)]"
    by blast
  from ms_cycle[OF s1(2), of 1 4001 "[pi / 2, 0, 0]"] s1(3) obtain s2 where
    s2: "run (frames (msTicks 4002 8003)) s1 = Inr s2" "rows_ok s2"
      "schedulerState s2 = (False, 2, 8002, [pi / 2, pi / 2, 0])"
      "completions (msTicks 4002 8003) s1 = [(8002, 1)]"
    by auto
  have "msTicks 0 8003 = msTicks 0 4002 @ msTicks 4002 8003"
    by (rule msTicks_split) simp_all
  with phases_append[OF s1(1) s2(1)] s1 s2 show ?thesis by simp
qed

lemma three_cycles:
  "\<exists>s'. run (frames (msTicks 0 12004)) init = Inr s' \<and> rows_ok s' \<and>
     schedulerState s' = (False, 0, 12003, [pi / 2, pi / 2, pi / 2]) \<and>
     completions (msTicks 0 12004) init = [(4001, 0), (8002, 1), (12003, 2)]"
proof -
  from two_cycles obtain s2 where
    s2: "run (frames (msTicks 0 8003)) init = Inr s2" "rows_ok s2"
      "schedulerState s2 = (False, 2, 8002, [pi / 2, pi / 2, 0])"
      "completions (msTicks 0 8003) init = [(4001, 0), (8002, 1)]"
    by blast
  from ms_cycle[OF s2(2), of 2 8002 "[pi / 2, pi / 2, 0]"] s2(3) obtain s3 where
    s3: "run (frames (msTicks 8003 12004)) s2 = Inr s3" "rows_ok s3"
      "schedulerState s3 = (False, 0, 12003, [pi / 2, pi / 2, pi / 2])"
      "completions (msTicks 8003 12004) s2 = [(12003, 2)]"
    by auto
  have "msTicks 0 12004 = msTicks 0 8003 @ msTicks 8003 12004"
    by (rule msTicks_split) simp_all
  with phases_append[OF s2(1) s3(1)] s2 s3 show ?thesis by simp
qed

lemma third_row_at_12000:
  "\<exists>s'. run (frames (msTicks 0 12001)) init = Inr s' \<and> rows_ok s' \<and>
     schedulerState s' = (True, 2, 11003, [pi / 2, pi / 2, 997 / 1000 * pi / 2]) \<and>
     completions (msTicks 0 12001) init = [(4001, 0), (8002, 1)]"
proof -
  from two_cycles obtain s2 where
    s2: "run (frames (msTicks 0 8003)) init = Inr s2" "rows_ok s2"
      "schedulerState s2 = (False, 2, 8002, [pi / 2, pi / 2, 0])"
      "completions (msTicks 0 8003) init = [(4001, 0), (8002, 1)]"
    by blast
  have "\<forall>t\<in>set (msTicks 8003 11003). t - 8002 \<le> pauseDuration"
    by (auto simp add: set_msTicks pauseDuration_def)
  from idle_phase[OF s2(2) s2(3) this] obtain s3 where
    s3: "run (frames (msTicks 8003 11003)) s2 = Inr s3" "rows_ok s3"
      "schedulerState s3 = (False, 2, 8002, [pi / 2, pi / 2, 0])"
      "completions (msTicks 8003 11003) s2 = []"
    by blast
  have "(11003::real) - 8002 > pauseDuration"
    by (simp add: pauseDuration_def)
  from start_frame[OF s3(2) s3(3) this] obtain s4 where
    s4: "run (frames [11003]) s3 = Inr s4" "rows_ok s4"
      "schedulerState s4 = (True, 2, 11003, [pi / 2, pi / 2, 0])"
      "completions [11003] s3 = []"
    by auto
  have "\<forall>t\<in>set (msTicks 11004 12001). (t - 11003) / rotationDuration < 1"
    by (auto simp add: set_msTicks rotationDuration_def)
  from rotating_phase[OF s4(2) s4(3) this] obtain s5 where
    s5: "run (frames (msTicks 11004 12001)) s4 = Inr s5" "rows_ok s5"
      "schedulerState s5 = (True, 2, 11003, [pi / 2, pi / 2, 997 / 1000 * pi / 2])"
      "completions (msTicks 11004 12001) s4 = []"
    by (auto simp add: msTicks_empty_iff last_msTicks rotationDuration_def)
  have split: "msTicks 0 12001 = ((msTicks 0 8003 @ msTicks 8003 11003) @ [11003]) @ msTicks 11004 12001"
  proof -
    have a: "msTicks 0 12001 = msTicks 0 8003 @ msTicks 8003 12001"
      by (rule msTicks_split) simp_all
    have b: "msTicks 8003 12001 = msTicks 8003 11003 @ msTicks 11003 12001"
      by (rule msTicks_split) simp_all
    have c: "msTicks 11003 12001 = msTicks 11003 11004 @ msTicks 11004 12001"
      by (rule msTicks_split) simp_all
    have d: "msTicks 11003 11004 = [real 11003]"
      by (rule msTicks_single) simp
    show ?thesis unfolding a b c d by simp
  qed
  note a = phases_append[OF s2(1) s3(1)]
  note b = phases_append[OF conjunct1[OF a] s4(1)]
  note c = phases_append[OF conjunct1[OF b] s5(1)]
  show ?thesis
    unfolding split using a b c s2 s3 s4 s5 by simp
qed

text \<open>
  Claim C1, as amended. From the initial state, with a frame every millisecond from 0 ms
  on: row 0 finishes its rotation at 4001 ms, row 1 at 8002 ms and row 2 at 12003 ms, and
  these are the only rotations finished by then. Each one leaves its row at exactly
  \<open>pi / 2\<close>, moves the current row index on (0 to 1, 1 to 2, 2 to 0), clears \<open>isRotating\<close>
  and sets \<open>rotationStartTime\<close> to the time of that frame.
\<close>

theorem three_rows_within_12003_ms:
  "schedulerAfter (frames (msTicks 0 4002)) init = Inr (False, 1, 4001, [pi / 2, 0, 0]) \<and>
   schedulerAfter (frames (msTicks 0 8003)) init = Inr (False, 2, 8002, [pi / 2, pi / 2, 0]) \<and>
   schedulerAfter (frames (msTicks 0 12004)) init = Inr (False, 0, 12003, [pi / 2, pi / 2, pi / 2]) \<and>
   completions (msTicks 0 12004) init = [(4001, 0), (8002, 1), (12003, 2)]"
  using one_cycle two_cycles three_cycles by (auto simp add: schedulerAfter_def)

text \<open>
  The claim as stated fails: after the frames at 0, 1, ..., 12000 ms only rows 0 and 1
  have finished; row 2 is still rotating, at \<open>997 / 1000\<close> of a quarter turn.
\<close>

theorem third_row_unfinished_at_12000_ms:
  "schedulerAfter (frames (msTicks 0 12001)) init =
     Inr (True, 2, 11003, [pi / 2, pi / 2, 997 / 1000 * pi / 2]) \<and>
   rowsAfter (frames (msTicks 0 12001)) init ! 2 \<noteq> pi / 2 \<and>
   completions (msTicks 0 12001) init = [(4001, 0), (8002, 1)]"
  using third_row_at_12000 by (auto simp add: schedulerAfter_def rowsAfter_def schedulerState_def)

text \<open>
  No spacing of the frames helps: a rotation starts only at a frame more than 3000 ms
  after the previous phase ended and ends only at a frame at least 1000 ms later, so the
  k-th rotation to finish does so after \<open>4000 * k\<close> ms. Frames at times up to 12000 ms,
  whatever they are, finish at most two rotations.
\<close>

lemma scheduler_completions_bound:
  fixes c :: real
  assumes "\<not> r \<longrightarrow> 4000 * c \<le> st" "r \<longrightarrow> 4000 * c + 3000 < st"
    "\<forall>t\<in>set ts. t \<le> 4000 * (c + real m + 1)"
  shows "length (schedulerCompletions ts (r, i, st, rs)) \<le> m"
  using assms
proof (induction ts arbitrary: r i st rs c m)
  case Nil
  then show ?case by simp
next
  case (Cons t ts)
  have t: "t \<le> 4000 * (c + real m + 1)" and ts: "\<forall>u\<in>set ts. u \<le> 4000 * (c + real m + 1)"
    using Cons.prems(3) by simp_all
  consider (start) "\<not> r" "t - st > pauseDuration"
    | (idle) "\<not> r" "\<not> t - st > pauseDuration"
    | (turn) "r" "(t - st) / rotationDuration < 1"
    | (finish) "r" "\<not> (t - st) / rotationDuration < 1"
    by blast
  then show ?case
  proof cases
    case start
    then have step: "schedulerStep t (r, i, st, rs) = (True, i, t, rs[i := 0])"
      and nc: "\<not> schedulerCompletes t (r, i, st, rs)"
      by (simp_all add: Let_def rotationDuration_def)
    have "4000 * c + 3000 < t" using start Cons.prems(1) by (simp add: pauseDuration_def)
    then have "length (schedulerCompletions ts (True, i, t, rs[i := 0])) \<le> m"
      using ts by (intro Cons.IH) simp_all
    with step nc show ?thesis by simp
  next
    case idle
    then have step: "schedulerStep t (r, i, st, rs) = (False, i, st, rs)"
      and nc: "\<not> schedulerCompletes t (r, i, st, rs)"
      by (simp_all add: Let_def)
    have "length (schedulerCompletions ts (False, i, st, rs)) \<le> m"
      using ts Cons.prems(1) idle(1) by (intro Cons.IH) simp_all
    with step nc show ?thesis by simp
  next
    case turn
    then have step: "schedulerStep t (r, i, st, rs) = (True, i, st, rs[i := (t - st) / rotationDuration * pi / 2])"
      and nc: "\<not> schedulerCompletes t (r, i, st, rs)"
      by (simp_all add: Let_def)
    have "length (schedulerCompletions ts (True, i, st, rs[i := (t - st) / rotationDuration * pi / 2])) \<le> m"
      using ts Cons.prems(2) turn(1) by (intro Cons.IH) simp_all
    with step nc show ?thesis by simp
  next
    case finish
    then have step: "schedulerStep t (r, i, st, rs) = (False, (i + 1) mod length rs, t, rs[i := pi / 2])"
      and c: "schedulerCompletes t (r, i, st, rs)"
      by (simp_all add: Let_def)
    have late: "4000 * (c + 1) < t"
      using finish Cons.prems(2) by (simp add: rotationDuration_def)
    with t have "0 < m" by (cases m) simp_all
    then obtain m' where m: "m = Suc m'" by (cases m) simp_all
    have "length (schedulerCompletions ts (False, (i + 1) mod length rs, t, rs[i := pi / 2])) \<le> m'"
    proof (rule Cons.IH[where c = "c + 1"])
      show "\<not> False \<longrightarrow> 4000 * (c + 1) \<le> t" using late by simp
      show "False \<longrightarrow> 4000 * (c + 1) + 3000 < t" by simp
      show "\<forall>u\<in>set ts. u \<le> 4000 * (c + 1 + real m' + 1)" using ts m by (simp add: algebra_simps)
    qed
    with step c m show ?thesis by simp
  qed
qed

lemma no_third_completion_by_12000:
  assumes "\<forall>t\<in>set ts. t \<le> 12000"
  shows "length (completions ts init) \<le> 2"
proof -
  have "length (schedulerCompletions ts (False, 0, 0, [0, 0, 0])) \<le> 2"
    using assms by (intro scheduler_completions_bound[where c = 0]) simp_all
  then show ?thesis
    by (simp add: completions_scheduler[OF rows_ok_init] scheduler_init)
qed

subsection \<open>What a frame writes to the rows\<close>

lemma rowsAfter_frame:
  assumes "rows_ok s"
  shows "rowsAfter [Frame time] s = snd (snd (snd (schedulerStep time (schedulerState s))))"
  using rowsAfter_frames[OF assms, of "[time]"] by (simp add: frames_def)

text \<open>
  Claim C3, as amended. A frame writes the angle of the current row only, and writes it
  absolutely: 0 in the frame that starts a rotation, \<open>progress * pi / 2\<close> while the rotation
  runs, and exactly \<open>pi / 2\<close> in the frame that finishes it, whatever angle the row had
  before. So a finished rotation leaves its row at \<open>pi / 2\<close> every time (nothing is added
  up), and a row that becomes current again starts over from 0. Every other row keeps its
  angle, and no event other than a frame changes any row.
\<close>

theorem rows_written_absolutely:
  assumes "rows_ok s"
  shows "rowsAfter [Frame time] s =
          (if isRotating s then
             (if (time - rotationStartTime s) / rotationDuration < 1
              then (rows s)[currentRowIndex s := (time - rotationStartTime s) / rotationDuration * pi / 2]
              else (rows s)[currentRowIndex s := pi / 2])
           else if time - rotationStartTime s > pauseDuration then (rows s)[currentRowIndex s := 0]
           else rows s)
        \<and> (completes time s \<longrightarrow> rowsAfter [Frame time] s ! currentRowIndex s = pi / 2)
        \<and> (i \<noteq> currentRowIndex s \<longrightarrow> rowsAfter [Frame time] s ! i = rows s ! i)
        \<and> (frameTimes [e] = [] \<longrightarrow> rowsAfter [e] s = rows s)"
proof -
  have 1: "rowsAfter [Frame time] s =
          (if isRotating s then
             (if (time - rotationStartTime s) / rotationDuration < 1
              then (rows s)[currentRowIndex s := (time - rotationStartTime s) / rotationDuration * pi / 2]
              else (rows s)[currentRowIndex s := pi / 2])
           else if time - rotationStartTime s > pauseDuration then (rows s)[currentRowIndex s := 0]
           else rows s)"
    unfolding rowsAfter_frame[OF assms]
    by (simp add: schedulerState_def Let_def rotationDuration_def)
  have 2: "completes time s \<longrightarrow> rowsAfter [Frame time] s ! currentRowIndex s = pi / 2"
    using assms unfolding 1
    by (auto simp add: completes_def startRotation_def Let_def rows_ok_def rotationDuration_def)
  have 3: "i \<noteq> currentRowIndex s \<longrightarrow> rowsAfter [Frame time] s ! i = rows s ! i"
    unfolding 1 by simp
  have 4: "frameTimes [e] = [] \<longrightarrow> rowsAfter [e] s = rows s"
    by (cases e)
      (simp_all add: rowsAfter_def startDragging_def stopDragging_def drag_def onWheel_def zoom_def
        onTouchStart_def onTouchMove_def Let_def split: list.splits)
  from 1 2 3 4 show ?thesis by blast
qed


theorem rows_written_absolutely_witness:
  "rows_ok (init\<lparr> isRotating := True, rotationStartTime := 15004, rows := [pi / 2, pi / 2, pi / 2] \<rparr>) \<and>
   completes 16004 (init\<lparr> isRotating := True, rotationStartTime := 15004, rows := [pi / 2, pi / 2, pi / 2] \<rparr>) \<and>
   rowsAfter [Frame 16004] (init\<lparr> isRotating := True, rotationStartTime := 15004, rows := [pi / 2, pi / 2, pi / 2] \<rparr>)
     = [pi / 2, pi / 2, pi / 2] \<and>
   rowsAfter [MouseUp] (init\<lparr> isRotating := True, rotationStartTime := 15004, rows := [pi / 2, pi / 2, pi / 2] \<rparr>)
     = [pi / 2, pi / 2, pi / 2]"
proof -
  let ?s = "init\<lparr> isRotating := True, rotationStartTime := 15004, rows := [pi / 2, pi / 2, pi / 2] \<rparr>"
  have ok: "rows_ok ?s" by (simp add: rows_ok_def init_def)
  have c: "completes 16004 ?s"
    by (simp add: completes_def startRotation_def init_def rotationDuration_def)
  from rows_written_absolutely[OF ok, of 16004 1 MouseUp] ok c show ?thesis
    by (simp add: init_def rotationDuration_def)
qed

text \<open>
  The claim as stated fails on the run below: row 0 finishes a rotation at 4001 ms and a
  second one at 16004 ms. After the first it stands at \<open>pi / 2\<close>; half way through the
  second (15504 ms) it stands at \<open>pi / 4\<close>, below where it had settled; after the second
  it stands at \<open>pi / 2\<close> again, not at \<open>2 * (pi / 2)\<close>.
\<close>

theorem second_rotation_does_not_accumulate:
  "completions [0, 3001, 4001, 7002, 8002, 11003, 12003, 15004, 15504, 16004] init
     = [(4001, 0), (8002, 1), (12003, 2), (16004, 0)] \<and>
   rowsAfter (frames [0, 3001, 4001, 7002, 8002, 11003, 12003]) init = [pi / 2, pi / 2, pi / 2] \<and>
   rowsAfter (frames [0, 3001, 4001, 7002, 8002, 11003, 12003, 15004, 15504]) init = [pi / 4, pi / 2, pi / 2] \<and>
   rowsAfter (frames [0, 3001, 4001, 7002, 8002, 11003, 12003, 15004, 15504, 16004]) init = [pi / 2, pi / 2, pi / 2] \<and>
   rowsAfter (frames [0, 3001, 4001, 7002, 8002, 11003, 12003, 15004, 15504, 16004]) init ! 0 \<noteq> 2 * (pi / 2)"
  unfolding completions_scheduler[OF rows_ok_init] rowsAfter_frames[OF rows_ok_init] scheduler_init
  by (simp add: pauseDuration_def rotationDuration_def)

subsection \<open>Bounds on the row angles\<close>

lemma other_events_scheduler:
  "frameTimes [e] = [] \<Longrightarrow> \<exists>s'. handle e s = Inr s' \<and> schedulerState s' = schedulerState s"
  by (cases e)
    (simp_all add: schedulerState_def startDragging_def stopDragging_def drag_def onWheel_def zoom_def
      onTouchStart_def onTouchMove_def Let_def split: list.splits)

lemma rows_ok_scheduler: "schedulerState s' = schedulerState s \<Longrightarrow> rows_ok s' = rows_ok s"
  by (simp add: schedulerState_def rows_ok_def)

lemma in_update:
  "\<forall>a\<in>set rs. P a \<Longrightarrow> P v \<Longrightarrow> \<forall>a\<in>set (rs[i := v]). P a"
  using set_update_subset_insert[of rs i v] by auto

lemma progress_angle_bounds:
  fixes x :: real
  assumes "0 \<le> x" "x / rotationDuration < 1"
  shows "0 \<le> x / rotationDuration * pi / 2 \<and> x / rotationDuration * pi / 2 \<le> pi / 2"
proof -
  have "x < 1000" using assms(2) by (simp add: rotationDuration_def)
  then have "x * pi \<le> 1000 * pi" by (intro mult_right_mono) simp_all
  moreover have "0 \<le> x * pi" using assms(1) by simp
  ultimately show ?thesis by (simp add: rotationDuration_def)
qed

lemma angles_bounded_step:
  assumes rs: "\<forall>a\<in>set rs. 0 \<le> a \<and> a \<le> pi / 2" and mono: "rotating \<longrightarrow> start \<le> time"
    and step: "schedulerStep time (rotating, i, start, rs) = (rotating', i', start', rs')"
  shows "(\<forall>a\<in>set rs'. 0 \<le> a \<and> a \<le> pi / 2) \<and> (rotating' \<longrightarrow> start' \<le> time)"
proof (cases "\<not> rotating \<and> time - start > pauseDuration")
  case True
  then have "schedulerStep time (rotating, i, start, rs) = (True, i, time, rs[i := 0])"
    by (simp add: Let_def rotationDuration_def)
  with step have "rs' = rs[i := 0]" "start' = time" by simp_all
  then show ?thesis using in_update[OF rs, of 0 i] by simp
next
  case False
  show ?thesis
  proof (cases rotating)
    case rot: True
    then have le: "0 \<le> time - start" using mono by simp
    show ?thesis
    proof (cases "(time - start) / rotationDuration < 1")
      case True
      then have "schedulerStep time (rotating, i, start, rs)
          = (True, i, start, rs[i := (time - start) / rotationDuration * pi / 2])"
        using rot by (simp add: Let_def)
      with step have "rs' = rs[i := (time - start) / rotationDuration * pi / 2]" "start' = start"
        by simp_all
      then show ?thesis
        using in_update[OF rs progress_angle_bounds[OF le True], of i] le by simp
    next
      case False
      then have "schedulerStep time (rotating, i, start, rs)
          = (False, (i + 1) mod length rs, time, rs[i := pi / 2])"
        using rot by (simp add: Let_def)
      with step have "rs' = rs[i := pi / 2]" "start' = time" by simp_all
      then show ?thesis using in_update[OF rs, of "pi / 2" i] by simp
    qed
  next
    case nrot: False
    then have "schedulerStep time (rotating, i, start, rs) = (False, i, start, rs)"
      using False by (simp add: Let_def)
    with step have "rs' = rs" "rotating' = False" by simp_all
    then show ?thesis using rs by simp
  qed
qed

lemma angles_bounded_run:
  assumes "rows_ok s" "\<forall>a\<in>set (rows s). 0 \<le> a \<and> a \<le> pi / 2"
    "sorted (frameTimes es)" "isRotating s \<longrightarrow> (\<forall>t\<in>set (frameTimes es). rotationStartTime s \<le> t)"
  shows "\<exists>s'. run es s = Inr s' \<and> rows_ok s' \<and> (\<forall>a\<in>set (rows s'). 0 \<le> a \<and> a \<le> pi / 2)"
  using assms
proof (induction es arbitrary: s)
  case Nil
  then show ?case by simp
next
  case (Cons e es)
  show ?case
  proof (cases "frameTimes [e] = []")
    case True
    from other_events_scheduler[OF True, of s] obtain s1 where
      s1: "handle e s = Inr s1" "schedulerState s1 = schedulerState s" by blast
    have ft: "frameTimes (e # es) = frameTimes es" using True by (cases e) simp_all
    have "rows_ok s1" using rows_ok_scheduler[OF s1(2)] Cons.prems(1) by simp
    moreover have "rows s1 = rows s" "isRotating s1 = isRotating s" "rotationStartTime s1 = rotationStartTime s"
      using s1(2) by (simp_all add: schedulerState_def)
    ultimately obtain s' where "run es s1 = Inr s'" "rows_ok s'" "\<forall>a\<in>set (rows s'). 0 \<le> a \<and> a \<le> pi / 2"
      using Cons.IH[of s1] Cons.prems(2,3,4) ft by auto
    with s1 show ?thesis by simp
  next
    case False
    then obtain t where e: "e = Frame t" by (cases e) simp_all
    from animate_scheduler[OF Cons.prems(1), of t] obtain s1 where
      s1: "animate t s = Inr s1" "rows_ok s1" "schedulerState s1 = schedulerStep t (schedulerState s)"
      by blast
    have later: "\<forall>u\<in>set (frameTimes es). t \<le> u" and srt: "sorted (frameTimes es)"
      using Cons.prems(3) e by simp_all
    have "isRotating s \<longrightarrow> rotationStartTime s \<le> t" using Cons.prems(4) e by simp
    from angles_bounded_step[OF Cons.prems(2) this, of "currentRowIndex s"
        "isRotating s1" "currentRowIndex s1" "rotationStartTime s1" "rows s1"] s1(3)
    have b: "\<forall>a\<in>set (rows s1). 0 \<le> a \<and> a \<le> pi / 2" "isRotating s1 \<longrightarrow> rotationStartTime s1 \<le> t"
      by (simp_all add: schedulerState_def)
    have "isRotating s1 \<longrightarrow> (\<forall>u\<in>set (frameTimes es). rotationStartTime s1 \<le> u)"
      using b(2) later by fastforce
    from Cons.IH[OF s1(2) b(1) srt this] obtain s' where
      "run es s1 = Inr s'" "rows_ok s'" "\<forall>a\<in>set (rows s'). 0 \<le> a \<and> a \<le> pi / 2"
      by blast
    with s1 e show ?thesis by simp
  qed
qed

text \<open>
  Claim C10. In every state reached from the initial one by any events, with frames whose
  times do not decrease, every row's angle lies between 0 and \<open>pi / 2\<close>.
\<close>

theorem row_angles_within_quarter_turn:
  assumes "sorted (frameTimes es)"
  shows "\<exists>s. run es init = Inr s \<and> (\<forall>a\<in>set (rows s). 0 \<le> a \<and> a \<le> pi / 2)"
proof -
  have "\<forall>a\<in>set (rows init). 0 \<le> a \<and> a \<le> pi / 2" by (simp add: init_def)
  moreover have "isRotating init \<longrightarrow> (\<forall>t\<in>set (frameTimes es). rotationStartTime init \<le> t)"
    by (simp add: init_def)
  ultimately show ?thesis
    using angles_bounded_run[OF rows_ok_init _ assms] by blast
qed

theorem row_angles_within_quarter_turn_witness:
  "sorted (frameTimes [Frame 0, Frame 3001, MouseDown 5 5, Frame 3501, Frame 4001, Frame 7002]) \<and>
   (\<exists>s. run [Frame 0, Frame 3001, MouseDown 5 5, Frame 3501, Frame 4001, Frame 7002] init = Inr s \<and>
        (\<forall>a\<in>set (rows s). 0 \<le> a \<and> a \<le> pi / 2))"
proof -
  have s: "sorted (frameTimes [Frame 0, Frame 3001, MouseDown 5 5, Frame 3501, Frame 4001, Frame 7002])"
    by simp
  from row_angles_within_quarter_turn[OF s] s show ?thesis by blast
qed

section \<open>Pinch\<close>

lemma hypot_zero: "hypot a 0 = \<bar>a\<bar>"
  by (simp add: hypot_def)

lemma zoom_mono:
  assumes "minZoom \<le> targetZoom s" "targetZoom s \<le> maxZoom"
  shows "(0 < delta \<longrightarrow> targetZoom s \<le> targetZoom (zoom delta s) \<and>
            (targetZoom s < maxZoom \<longrightarrow> targetZoom s < targetZoom (zoom delta s)))
       \<and> (delta < 0 \<longrightarrow> targetZoom (zoom delta s) \<le> targetZoom s \<and>
            (minZoom < targetZoom s \<longrightarrow> targetZoom (zoom delta s) < targetZoom s))"
  using assms
  by (auto simp add: zoom_def Let_def zoomSpeed_def minZoom_def maxZoom_def max_def min_def)

text \<open>
  Claim C7, as amended. A two-finger touch-move passes
  \<open>previousTouchDistance - touchDistance\<close> to \<open>zoom\<close>. When the fingers close, this delta is
  positive and the target distance does not fall (it rises unless it is already at
  \<open>maxZoom\<close>): closing the fingers zooms out. When the fingers spread, the delta is negative
  and the target distance does not rise (it falls unless it is already at \<open>minZoom\<close>):
  spreading zooms in. A negative wheel delta (wheel up) likewise does not raise the target
  distance.
\<close>

theorem pinch_closing_zooms_out:
  assumes "minZoom \<le> targetZoom s" "targetZoom s \<le> maxZoom"
  shows "snd (onTouchMove [t0, t1] s) =
           (zoom (previousTouchDistance s - touchDistance t0 t1) s)\<lparr> previousTouchDistance := touchDistance t0 t1 \<rparr>
       \<and> (touchDistance t0 t1 < previousTouchDistance s \<longrightarrow>
            0 < previousTouchDistance s - touchDistance t0 t1 \<and>
            targetZoom s \<le> targetZoom (snd (onTouchMove [t0, t1] s)) \<and>
            (targetZoom s < maxZoom \<longrightarrow> targetZoom s < targetZoom (snd (onTouchMove [t0, t1] s))))
       \<and> (previousTouchDistance s < touchDistance t0 t1 \<longrightarrow>
            previousTouchDistance s - touchDistance t0 t1 < 0 \<and>
            targetZoom (snd (onTouchMove [t0, t1] s)) \<le> targetZoom s \<and>
            (minZoom < targetZoom s \<longrightarrow> targetZoom (snd (onTouchMove [t0, t1] s)) < targetZoom s))
       \<and> (deltaY < 0 \<longrightarrow> targetZoom (snd (onWheel deltaY s)) \<le> targetZoom s)"
proof -
  have m: "snd (onTouchMove [t0, t1] s) =
           (zoom (previousTouchDistance s - touchDistance t0 t1) s)\<lparr> previousTouchDistance := touchDistance t0 t1 \<rparr>"
    by (simp add: onTouchMove_def Let_def)
  have tz: "targetZoom (snd (onTouchMove [t0, t1] s)) = targetZoom (zoom (previousTouchDistance s - touchDistance t0 t1) s)"
    unfolding m by simp
  have w: "snd (onWheel deltaY s) = zoom deltaY s" by (simp add: onWheel_def)
  show ?thesis
    using zoom_mono[OF assms, of "previousTouchDistance s - touchDistance t0 t1"]
      zoom_mono[OF assms, of deltaY] m
    unfolding tz w by auto
qed

theorem pinch_closing_zooms_out_witness:
  "minZoom \<le> targetZoom (init\<lparr> targetZoom := 10, previousTouchDistance := 100 \<rparr>) \<and>
   targetZoom (init\<lparr> targetZoom := 10, previousTouchDistance := 100 \<rparr>) \<le> maxZoom \<and>
   touchDistance \<lparr> clientX = 0, clientY = 0, pageX = 0, pageY = 0 \<rparr>
        \<lparr> clientX = 60, clientY = 0, pageX = 60, pageY = 0 \<rparr>
     < previousTouchDistance (init\<lparr> targetZoom := 10, previousTouchDistance := 100 \<rparr>) \<and>
   targetZoom (init\<lparr> targetZoom := 10, previousTouchDistance := 100 \<rparr>)
     < targetZoom (snd (onTouchMove
         [\<lparr> clientX = 0, clientY = 0, pageX = 0, pageY = 0 \<rparr>,
          \<lparr> clientX = 60, clientY = 0, pageX = 60, pageY = 0 \<rparr>]
         (init\<lparr> targetZoom := 10, previousTouchDistance := 100 \<rparr>))) \<and>
   targetZoom (snd (onWheel (- 100) (init\<lparr> targetZoom := 10, previousTouchDistance := 100 \<rparr>)))
     \<le> targetZoom (init\<lparr> targetZoom := 10, previousTouchDistance := 100 \<rparr>)"
proof -
  let ?s = "init\<lparr> targetZoom := 10, previousTouchDistance := 100 \<rparr>"
  let ?a = "\<lparr> clientX = 0, clientY = 0, pageX = 0, pageY = 0 \<rparr>"
  let ?b = "\<lparr> clientX = 60, clientY = 0, pageX = 60, pageY = 0 \<rparr>"
  have lo: "minZoom \<le> targetZoom ?s" and hi: "targetZoom ?s \<le> maxZoom"
    by (simp_all add: minZoom_def maxZoom_def)
  have d: "touchDistance ?a ?b < previousTouchDistance ?s"
    by (simp add: touchDistance_def hypot_zero)
  have lt: "targetZoom ?s < maxZoom" by (simp add: maxZoom_def)
  have n: "(- 100 :: real) < 0" by simp
  note T = pinch_closing_zooms_out[OF lo hi, of ?a ?b "- 100"]
  from T d lt have up: "targetZoom ?s < targetZoom (snd (onTouchMove [?a, ?b] ?s))" by blast
  from T n have down: "targetZoom (snd (onWheel (- 100) ?s)) \<le> targetZoom ?s" by blast
  from lo hi d up down show ?thesis by blast
qed

text \<open>
  The claim as stated fails: two fingers 100 px apart that close to 60 px give the delta
  40, not a negative one, and take the target distance from 10 to 14, away from the
  grid.
\<close>

theorem closing_pinch_raises_target:
  "previousTouchDistance (snd (onTouchStart
       [\<lparr> clientX = 0, clientY = 0, pageX = 0, pageY = 0 \<rparr>,
        \<lparr> clientX = 100, clientY = 0, pageX = 100, pageY = 0 \<rparr>] (init\<lparr> targetZoom := 10 \<rparr>))) = 100
   \<and> touchDistance \<lparr> clientX = 0, clientY = 0, pageX = 0, pageY = 0 \<rparr>
        \<lparr> clientX = 60, clientY = 0, pageX = 60, pageY = 0 \<rparr> = 60
   \<and> targetZoom (snd (onTouchMove
       [\<lparr> clientX = 0, clientY = 0, pageX = 0, pageY = 0 \<rparr>,
        \<lparr> clientX = 60, clientY = 0, pageX = 60, pageY = 0 \<rparr>]
       (snd (onTouchStart
         [\<lparr> clientX = 0, clientY = 0, pageX = 0, pageY = 0 \<rparr>,
          \<lparr> clientX = 100, clientY = 0, pageX = 100, pageY = 0 \<rparr>] (init\<lparr> targetZoom := 10 \<rparr>))))) = 14"
  by (simp add: onTouchStart_def onTouchMove_def touchDistance_def hypot_zero zoom_def Let_def
      zoomSpeed_def minZoom_def maxZoom_def)

section \<open>Default actions of the platform\<close>

text \<open>
  Claim C9, as amended. The wheel handler calls \<open>preventDefault\<close> on every event; the
  touch-start and touch-move handlers call it on every event that carries exactly one
  touch point.
\<close>

theorem prevent_default_on_wheel_and_single_touch:
  "fst (onWheel deltaY s) \<and> fst (onTouchStart [t0] s) \<and> fst (onTouchMove [t0] s)"
  by (simp add: onWheel_def onTouchStart_def onTouchMove_def)

text \<open>
  The claim as stated fails: on an event with three touch points neither touch handler
  takes a branch, and neither calls \<open>preventDefault\<close>.
\<close>

theorem three_touches_not_prevented:
  "\<not> fst (onTouchStart
       [\<lparr> clientX = 10, clientY = 10, pageX = 10, pageY = 10 \<rparr>,
        \<lparr> clientX = 50, clientY = 10, pageX = 50, pageY = 10 \<rparr>,
        \<lparr> clientX = 90, clientY = 10, pageX = 90, pageY = 10 \<rparr>] init)
   \<and> \<not> fst (onTouchMove
       [\<lparr> clientX = 10, clientY = 10, pageX = 10, pageY = 10 \<rparr>,
        \<lparr> clientX = 50, clientY = 10, pageX = 50, pageY = 10 \<rparr>,
        \<lparr> clientX = 90, clientY = 10, pageX = 90, pageY = 10 \<rparr>] init)"
  by (simp add: onTouchStart_def onTouchMove_def)

section \<open>Orientation of the grid\<close>

lemma animate_orientation:
  assumes "rows_ok s"
  shows "\<exists>s'. animate time s = Inr s' \<and> rows_ok s' \<and>
           groupQuaternion s' = groupQuaternion (autoRotation s) \<and>
           groupRotation s' = groupRotation (autoRotation s) \<and>
           isDragging s' = isDragging s"
  using assms
  by (auto simp add: animate_def rotateRow_def startRotation_def autoRotation_def smoothZoom_def
      setRowRotationY_def rows_ok_def Let_def next_index_less)

text \<open>
  Claim C2, as amended. While dragging, a pointer move by \<open>(dx, dy)\<close> sets the group's
  quaternion to \<open>deltaQ * Q\<close>, where \<open>deltaQ\<close> is built from the Euler angles
  \<open>(dy * dragRotationSpeed, dx * dragRotationSpeed, 0)\<close> in the order XYZ; a single-finger
  drag from (100, 100) to (110, 105), with \<open>dragRotationSpeed = 0.01\<close>, multiplies from the
  left by the rotation with Euler angles \<open>(5 * 0.01, 10 * 0.01, 0) = (0.05, 0.10, 0)\<close>.
\<close>

theorem drag_left_multiplies:
  assumes "isDragging s"
  shows "groupQuaternion (drag cx cy s) =
           multiplyQuaternions
             (setFromEuler \<lparr> euler_x = (cy - pos_y (previousMousePosition s)) * dragRotationSpeed,
                             euler_y = (cx - pos_x (previousMousePosition s)) * dragRotationSpeed,
                             euler_z = 0 \<rparr>)
             (groupQuaternion s)
       \<and> dragRotationSpeed = 0.01
       \<and> groupQuaternion (snd (onTouchMove [\<lparr> clientX = 110, clientY = 105, pageX = 110, pageY = 105 \<rparr>]
            (snd (onTouchStart [\<lparr> clientX = 100, clientY = 100, pageX = 100, pageY = 100 \<rparr>] s)))) =
           multiplyQuaternions (setFromEuler \<lparr> euler_x = 0.05, euler_y = 0.10, euler_z = 0 \<rparr>)
             (groupQuaternion s)"
  using assms
  by (simp add: drag_def deltaRotationEuler_def onTouchMove_def onTouchStart_def startDragging_def
      dragRotationSpeed_def Let_def)

theorem drag_left_multiplies_witness:
  "isDragging (startDragging 100 100 init) \<and>
   groupQuaternion (drag 110 105 (startDragging 100 100 init)) =
     multiplyQuaternions (setFromEuler \<lparr> euler_x = 0.05, euler_y = 0.10, euler_z = 0 \<rparr>)
       (groupQuaternion init)"
proof -
  have d: "isDragging (startDragging 100 100 init)" by (simp add: startDragging_def)
  from drag_left_multiplies[OF d, of 110 105] d show ?thesis
    by (simp add: startDragging_def dragRotationSpeed_def)
qed

lemma cos_small_less:
  fixes a b :: real
  assumes "0 \<le> a" "a < b" "b < 1"
  shows "cos b < cos a" "0 < cos b"
proof -
  have "b \<le> pi" using assms(3) pi_ge_two by linarith
  with assms show "cos b < cos a" by (intro cos_monotone_0_pi) simp_all
  have "b < pi / 2" using assms(3) pi_ge_two by linarith
  moreover have "0 < b" using assms(1,2) by linarith
  ultimately show "0 < cos b" by (simp add: cos_gt_zero)
qed

text \<open>
  The claim as stated fails on its example: the Euler angles of that drag are
  \<open>(0.05, 0.10, 0)\<close>, not \<open>(0.05 * 0.01, 0.10 * 0.01, 0)\<close>, and the resulting quaternion
  differs from the one the claim's angles would give.
\<close>

theorem drag_angles_not_scaled_twice:
  "deltaRotationEuler 110 105 (startDragging 100 100 init) = \<lparr> euler_x = 0.05, euler_y = 0.10, euler_z = 0 \<rparr>
   \<and> deltaRotationEuler 110 105 (startDragging 100 100 init)
       \<noteq> \<lparr> euler_x = 0.05 * 0.01, euler_y = 0.10 * 0.01, euler_z = 0 \<rparr>
   \<and> groupQuaternion (drag 110 105 (startDragging 100 100 init))
       \<noteq> multiplyQuaternions (setFromEuler \<lparr> euler_x = 0.05 * 0.01, euler_y = 0.10 * 0.01, euler_z = 0 \<rparr>)
            (groupQuaternion init)"
proof -
  have e: "deltaRotationEuler 110 105 (startDragging 100 100 init)
      = \<lparr> euler_x = 0.05, euler_y = 0.10, euler_z = 0 \<rparr>"
    by (simp add: deltaRotationEuler_def startDragging_def dragRotationSpeed_def Let_def)
  have w1: "quat_w (groupQuaternion (drag 110 105 (startDragging 100 100 init)))
      = cos (1 / 40) * cos (1 / 20)"
    by (simp add: drag_def deltaRotationEuler_def dragRotationSpeed_def startDragging_def init_def
        multiplyQuaternions_def setFromEuler_def Let_def)
  have w2: "quat_w (multiplyQuaternions
        (setFromEuler \<lparr> euler_x = 0.05 * 0.01, euler_y = 0.10 * 0.01, euler_z = 0 \<rparr>) (groupQuaternion init))
      = cos (1 / 4000) * cos (1 / 2000)"
    by (simp add: init_def multiplyQuaternions_def setFromEuler_def Let_def)
  have "cos (1 / 40 :: real) * cos (1 / 20) < cos (1 / 4000) * cos (1 / 2000)"
    using cos_small_less[of "1 / 4000" "1 / 40"] cos_small_less[of "1 / 2000" "1 / 20"]
    by (intro mult_strict_mono) simp_all
  with w1 w2 have "groupQuaternion (drag 110 105 (startDragging 100 100 init))
       \<noteq> multiplyQuaternions (setFromEuler \<lparr> euler_x = 0.05 * 0.01, euler_y = 0.10 * 0.01, euler_z = 0 \<rparr>)
            (groupQuaternion init)"
    by (metis less_irrefl)
  with e show ?thesis by simp
qed

text \<open>
  Claim C8. In a frame with \<open>isDragging\<close> set, the auto-rotation step does nothing: the
  group's quaternion and Euler angles come out of the frame unchanged, while the frame is
  exactly the row rotation step followed by the zoom smoothing step, both applied as in
  any other frame. And a drag call in a state where \<open>isDragging\<close> is not set (the states
  in which a frame does auto-rotate) changes nothing.
\<close>

theorem no_auto_spin_while_dragging:
  assumes "isDragging s" "rows_ok s" "\<not> isDragging s0"
  shows "(\<exists>s1 s'. rotateRow time (startRotation time s) = Inr s1 \<and> animate time s = Inr s' \<and>
            s' = smoothZoom s1 \<and>
            groupQuaternion s' = groupQuaternion s \<and> groupRotation s' = groupRotation s \<and>
            schedulerState s' = schedulerStep time (schedulerState s) \<and>
            currentZoom s' = currentZoom s + (targetZoom s - currentZoom s) * 0.1)
       \<and> autoRotation s = s
       \<and> drag cx cy s0 = s0"
proof -
  have a: "autoRotation s = s" using assms(1) by (simp add: autoRotation_def)
  from animate_scheduler[OF assms(2), of time] animate_orientation[OF assms(2), of time]
  obtain s' where s': "animate time s = Inr s'"
      "schedulerState s' = schedulerStep time (schedulerState s)"
      "currentZoom s' = currentZoom s + (targetZoom s - currentZoom s) * 0.1"
      "groupQuaternion s' = groupQuaternion (autoRotation s)"
      "groupRotation s' = groupRotation (autoRotation s)"
    by auto
  from s'(1) obtain s1 where s1: "rotateRow time (startRotation time s) = Inr s1" "s' = smoothZoom s1"
    unfolding animate_def a by (auto split: sum.splits)
  have "drag cx cy s0 = s0" using assms(3) by (simp add: drag_def)
  with s' s1 a show ?thesis by auto
qed

theorem no_auto_spin_while_dragging_witness:
  "isDragging (startDragging 5 5 init) \<and> rows_ok (startDragging 5 5 init) \<and> \<not> isDragging init \<and>
   (\<exists>s'. animate 3001 (startDragging 5 5 init) = Inr s' \<and>
      groupQuaternion s' = groupQuaternion init \<and> groupRotation s' = groupRotation init \<and>
      schedulerState s' = (True, 0, 3001, [0, 0, 0]) \<and>
      currentZoom s' = currentZoom init + (targetZoom init - currentZoom init) * 0.1) \<and>
   drag 7 7 init = init"
proof -
  have d: "isDragging (startDragging 5 5 init)" by (simp add: startDragging_def)
  have ok: "rows_ok (startDragging 5 5 init)" by (simp add: startDragging_def rows_ok_def init_def)
  have nd: "\<not> isDragging init" by (simp add: init_def)
  have sch: "schedulerStep 3001 (schedulerState (startDragging 5 5 init)) = (True, 0, 3001, [0, 0, 0])"
    by (simp add: schedulerState_def startDragging_def init_def Let_def pauseDuration_def rotationDuration_def)
  have f: "groupQuaternion (startDragging 5 5 init) = groupQuaternion init"
    "groupRotation (startDragging 5 5 init) = groupRotation init"
    "currentZoom (startDragging 5 5 init) = currentZoom init"
    "targetZoom (startDragging 5 5 init) = targetZoom init"
    by (simp_all add: startDragging_def)
  from no_auto_spin_while_dragging[OF d ok nd, of 3001 7 7] d ok nd show ?thesis
    unfolding sch f by blast
qed

end
